theory Spec2Isabelle
  imports Main "HOL-Library.AList" "HOL-Library.Word"
begin

section \<open>The remote queue group of src/unnamed/part_000\<close>

text \<open>
  A shallow embedding of the database-backed queue group: its registry of live queues,
  the last-access table, and the operations \<open>NewMongoRemoteQueueGroup\<close>, \<open>Get\<close>,
  \<open>Put\<close> and \<open>Prune\<close>.

  The collaborators the Go code calls (the MongoDB client, the queue constructor passed
  by the client, the queues themselves, the clock, the scheduler) are not part of the
  package. Their answers are fields of the record \<open>env\<close>; what they are asked to do
  is written into the record \<open>world\<close>. Every theorem below is stated for an arbitrary
  \<open>env\<close>, so it covers every way the collaborators may answer.

  The mutex of the group serialises the operations, so each operation is a function from
  the state before to the state after. Inside \<open>Prune\<close> the workers share one FIFO
  channel; \<open>pruneWorkers\<close> below explains how the pool is sequentialised.

  The clock is read once per operation: the argument \<open>now\<close> stands for every
  \<open>time.Now()\<close> of the call. Go ranges over a map in no fixed order; the second pass
  of \<open>Prune\<close> ranges over the registry in list order, which fixes only the order in
  which runners are closed. Panics (recovered and logged by the goroutines) and
  \<open>Close\<close> are not modelled.
\<close>

subsection \<open>Errors\<close>

text \<open>
  \<open>New\<close> is \<open>errors.New\<close>, \<open>Wrap\<close> is \<open>errors.Wrap\<close>, \<open>External\<close> is an error
  produced by a collaborator, and \<open>Resolved\<close> is what \<open>catcher.Resolve()\<close> builds
  from the errors a catcher has collected.
\<close>

datatype error =
    New string
  | External string
  | Wrap error string
  | Resolved "error list"

definition Resolve :: "error list \<Rightarrow> error option" where
  "Resolve errs = (if errs = [] then None else Some (Resolved errs))"

subsection \<open>Strings\<close>

text \<open>Go's \<open>strings.HasPrefix\<close>, \<open>TrimPrefix\<close>, \<open>HasSuffix\<close> and \<open>TrimSuffix\<close>.\<close>

definition HasPrefix :: "string \<Rightarrow> string \<Rightarrow> bool" where
  "HasPrefix s p = (take (length p) s = p)"

definition TrimPrefix :: "string \<Rightarrow> string \<Rightarrow> string" where
  "TrimPrefix s p = (if HasPrefix s p then drop (length p) s else s)"

definition HasSuffix :: "string \<Rightarrow> string \<Rightarrow> bool" where
  "HasSuffix s suf = (length suf \<le> length s \<and> drop (length s - length suf) s = suf)"

definition TrimSuffix :: "string \<Rightarrow> string \<Rightarrow> string" where
  "TrimSuffix s suf = (if HasSuffix s suf then take (length s - length suf) s else s)"

text \<open>
  Modelled from the spec: \<open>addJobsSuffix\<close> is called by part_000 but declared in a
  file of the package that is not under src/. The spec's naming convention is "backing
  collection name = prefix + logical id + queue-suffix"; its scenario names the
  collection of id \<open>alpha\<close> under prefix \<open>svc.\<close> as \<open>svc.alpha.jobs\<close>, so the
  suffix is \<open>.jobs\<close>.
\<close>

definition addJobsSuffix :: "string \<Rightarrow> string" where
  "addJobsSuffix s = s @ ''.jobs''"

text \<open>
  Modelled from the spec: \<open>trimJobsSuffix\<close> is called by part_000 but declared in the
  same missing file. The spec recovers the logical id by "strip prefix then strip
  queue-suffix"; a name that does not end in the suffix is left as it is, as
  \<open>strings.TrimPrefix\<close> leaves a name without the prefix.
\<close>

definition trimJobsSuffix :: "string \<Rightarrow> string" where
  "trimJobsSuffix s = TrimSuffix s ''.jobs''"

subsection \<open>Data\<close>

text \<open>
  Instants and durations are integers (nanoseconds). A \<open>time.Duration\<close> is an int64;
  the one place where the group does arithmetic on a duration alone is the negation
  \<open>-g.ttl\<close> in \<open>Prune\<close>, which wraps at the least int64: \<open>negDuration\<close>. A job
  document carries the three status fields the group reads.
\<close>

definition negDuration :: "int \<Rightarrow> int" where
  "negDuration d = sint (- (word_of_int d :: 64 word))"

record doc =
  completed :: bool
  in_prog :: bool
  mod_ts :: int

record MongoDBOptions =
  DB :: string
  URI :: string

record RemoteQueueGroupOptions =
  Prefix :: string
  PruneFrequency :: int
  TTL :: int

text \<open>
  The group. A queue is known by its handle, a number; \<open>queues\<close> and \<open>ttlMap\<close> are
  the two Go maps, kept as association lists that are read with \<open>map_of\<close> and written
  with \<open>AList.update\<close> and \<open>AList.delete\<close>.
\<close>

record remoteMongoQueueGroup =
  mongooptions :: MongoDBOptions
  prefix :: string
  pruneFrequency :: int
  queues :: "(string \<times> nat) list"
  ttl :: int
  ttlMap :: "(string \<times> int) list"

text \<open>
  The world outside the group: the collections of the database with their documents, in
  the order \<open>ListCollections\<close> reports them; how often the constructor has been
  called (the next handle); the drivers set, the queues started, the runners closed; and
  whether the pruning goroutine has been launched.
\<close>

record world =
  colls :: "(string \<times> doc list) list"
  constructed :: nat
  drivers :: "(nat \<times> string) list"
  started :: "nat list"
  closed :: "nat list"
  pruneLoop :: bool

text \<open>
  The answers of the collaborators. \<open>validate\<close> is \<open>opts.validate()\<close>, declared
  outside src/. \<open>regexMatch p n\<close> says whether the store's regular expression
  \<open>^p.*\<close> matches the collection name \<open>n\<close>. The \<open>...Err\<close> fields give the error a
  call returns, if any. \<open>ctxDoneDrop\<close> and \<open>ctxDoneClose\<close> say whether a
  \<open>select\<close> of \<open>Prune\<close> takes its \<open>ctx.Done()\<close> branch (for a collection in the
  first pass, for an id in the second). \<open>NumCPU\<close> is \<open>runtime.NumCPU()\<close>.
\<close>

record env =
  validate :: "RemoteQueueGroupOptions \<Rightarrow> error option"
  regexMatch :: "string \<Rightarrow> string \<Rightarrow> bool"
  listErr :: "error option"
  decodeErr :: "string \<Rightarrow> error option"
  cursorErr :: "error option"
  cursorCloseErr :: "error option"
  constructorErr :: "nat \<Rightarrow> error option"
  openDriverErr :: "string \<Rightarrow> error option"
  setDriverErr :: "nat \<Rightarrow> error option"
  startErr :: "nat \<Rightarrow> error option"
  countCompletedErr :: "string \<Rightarrow> error option"
  countPendingErr :: "string \<Rightarrow> error option"
  dropErr :: "string \<Rightarrow> error option"
  ctxDoneDrop :: "string \<Rightarrow> bool"
  ctxDoneClose :: "string \<Rightarrow> bool"
  NumCPU :: nat

subsection \<open>Naming\<close>

definition collectionFromID :: "remoteMongoQueueGroup \<Rightarrow> string \<Rightarrow> string" where
  "collectionFromID g qid = addJobsSuffix (prefix g @ qid)"

definition idFromCollection :: "remoteMongoQueueGroup \<Rightarrow> string \<Rightarrow> string" where
  "idFromCollection g collection = trimJobsSuffix (TrimPrefix collection (prefix g))"

subsection \<open>The store\<close>

text \<open>The cursor loop of \<open>getExistingCollections\<close>: it stops at the first name that
  does not decode.\<close>

fun decodeAll :: "env \<Rightarrow> string list \<Rightarrow> string list \<Rightarrow> error + string list" where
  "decodeAll e [] collections = Inr collections"
| "decodeAll e (n # ns) collections =
     (case decodeErr e n of
        Some err \<Rightarrow> Inl (Wrap err ''problem parsing listCollections output'')
      | None \<Rightarrow> decodeAll e ns (collections @ [n]))"

definition getExistingCollections :: "env \<Rightarrow> world \<Rightarrow> string \<Rightarrow> error + string list" where
  "getExistingCollections e w pfx =
     (case listErr e of
        Some err \<Rightarrow> Inl (Wrap err ''problem calling listCollections'')
      | None \<Rightarrow>
          (case decodeAll e (filter (regexMatch e pfx) (map fst (colls w))) [] of
             Inl err \<Rightarrow> Inl err
           | Inr collections \<Rightarrow>
               (case cursorErr e of
                  Some err \<Rightarrow> Inl (Wrap err ''problem iterating over list collections cursor'')
                | None \<Rightarrow>
                    (case cursorCloseErr e of
                       Some err \<Rightarrow> Inl (Wrap err ''problem closing cursor'')
                     | None \<Rightarrow> Inr collections))))"

text \<open>The documents of a collection; a collection the store does not have has none.\<close>

definition documents :: "world \<Rightarrow> string \<Rightarrow> doc list" where
  "documents w c = (case map_of (colls w) c of None \<Rightarrow> [] | Some ds \<Rightarrow> ds)"

text \<open>The two filters of \<open>Prune\<close>: completed, not in progress and modified at or
  after \<open>time.Now().Add(-g.ttl)\<close>; and not completed.\<close>

definition recentlyCompleted :: "int \<Rightarrow> int \<Rightarrow> doc \<Rightarrow> bool" where
  "recentlyCompleted now t d =
     (completed d \<and> \<not> in_prog d \<and> now + negDuration t \<le> mod_ts d)"

definition pending :: "doc \<Rightarrow> bool" where
  "pending d = (\<not> completed d)"

definition CountDocuments :: "error option \<Rightarrow> doc list \<Rightarrow> (doc \<Rightarrow> bool) \<Rightarrow> error + nat" where
  "CountDocuments failure ds flt =
     (case failure of Some err \<Rightarrow> Inl err | None \<Rightarrow> Inr (length (filter flt ds)))"

subsection \<open>Starting a queue\<close>

definition startProcessingRemoteQueue ::
  "env \<Rightarrow> string \<Rightarrow> world \<Rightarrow> (error + nat) \<times> world" where
  "startProcessingRemoteQueue e coll w =
     (let coll' = trimJobsSuffix coll;
          q = constructed w;
          w1 = w\<lparr>constructed := Suc (constructed w)\<rparr>
      in case constructorErr e q of
           Some err \<Rightarrow> (Inl (Wrap err ''problem starting queue''), w1)
         | None \<Rightarrow>
             (case openDriverErr e coll' of
                Some err \<Rightarrow> (Inl (Wrap err ''problem opening driver''), w1)
              | None \<Rightarrow>
                  (case setDriverErr e q of
                     Some err \<Rightarrow> (Inl (Wrap err ''problem setting driver''), w1)
                   | None \<Rightarrow>
                       (let w2 = w1\<lparr>drivers := drivers w1 @ [(q, coll')]\<rparr>
                        in case startErr e q of
                             Some err \<Rightarrow> (Inl (Wrap err ''problem starting queue''), w2)
                           | None \<Rightarrow> (Inr q, w2\<lparr>started := started w2 @ [q]\<rparr>)))))"

subsection \<open>Get and Put\<close>

text \<open>
  Both check the registry twice, under the read lock and again under the write lock.
  Each operation runs alone here, so the second check sees what the first saw; it is
  written out all the same.
\<close>

definition Get ::
  "env \<Rightarrow> int \<Rightarrow> string \<Rightarrow> remoteMongoQueueGroup \<Rightarrow> world
     \<Rightarrow> (error + nat) \<times> remoteMongoQueueGroup \<times> world" where
  "Get e now qid g w =
     (case map_of (queues g) qid of
        Some queue \<Rightarrow> (Inr queue, g\<lparr>ttlMap := AList.update qid now (ttlMap g)\<rparr>, w)
      | None \<Rightarrow>
          (case map_of (queues g) qid of
             Some queue \<Rightarrow> (Inr queue, g\<lparr>ttlMap := AList.update qid now (ttlMap g)\<rparr>, w)
           | None \<Rightarrow>
               (case startProcessingRemoteQueue e (collectionFromID g qid) w of
                  (Inl err, w') \<Rightarrow> (Inl (Wrap err ''problem starting queue''), g, w')
                | (Inr queue, w') \<Rightarrow>
                    (Inr queue,
                     g\<lparr>queues := AList.update qid queue (queues g),
                       ttlMap := AList.update qid now (ttlMap g)\<rparr>,
                     w'))))"

definition Put ::
  "int \<Rightarrow> string \<Rightarrow> nat \<Rightarrow> remoteMongoQueueGroup \<Rightarrow> error option \<times> remoteMongoQueueGroup" where
  "Put now qid queue g =
     (case map_of (queues g) qid of
        Some _ \<Rightarrow> (Some (New ''a queue already exists at this index''), g)
      | None \<Rightarrow>
          (case map_of (queues g) qid of
             Some _ \<Rightarrow> (Some (New ''a queue already exists at this index''), g)
           | None \<Rightarrow>
               (None,
                g\<lparr>queues := AList.update qid queue (queues g),
                  ttlMap := AList.update qid now (ttlMap g)\<rparr>)))"

subsection \<open>Prune\<close>

text \<open>The pre-filter: a collection is checked when its id has no last-access entry or
  the entry is older than the TTL.\<close>

definition needsCheck :: "remoteMongoQueueGroup \<Rightarrow> int \<Rightarrow> string \<Rightarrow> bool" where
  "needsCheck g now coll =
     (case map_of (ttlMap g) (idFromCollection g coll) of
        None \<Rightarrow> True
      | Some t \<Rightarrow> now - t > ttl g)"

text \<open>What the workers of the first pass share: the world, the catcher and the channel
  of ids to delete.\<close>

record pruneState =
  pworld :: world
  catcher :: "error list"
  collsDeleteChan :: "string list"

definition dropColl :: "env \<Rightarrow> string \<Rightarrow> pruneState \<Rightarrow> pruneState" where
  "dropColl e nextColl s =
     (case dropErr e nextColl of
        Some err \<Rightarrow> s\<lparr>catcher := catcher s @ [err]\<rparr>
      | None \<Rightarrow> s\<lparr>pworld := (pworld s)\<lparr>colls := AList.delete nextColl (colls (pworld s))\<rparr>\<rparr>)"

text \<open>
  One turn of a worker's loop \<open>for nextColl := range collsDropChan\<close>. The Boolean says
  whether the worker goes on to receive the next collection (\<open>True\<close>) or has left its
  loop through one of the \<open>return\<close> statements (\<open>False\<close>).
\<close>

definition pruneColl ::
  "env \<Rightarrow> remoteMongoQueueGroup \<Rightarrow> int \<Rightarrow> string \<Rightarrow> pruneState \<Rightarrow> bool \<times> pruneState" where
  "pruneColl e g now nextColl s =
     (case CountDocuments (countCompletedErr e nextColl) (documents (pworld s) nextColl)
             (recentlyCompleted now (ttl g)) of
        Inl err \<Rightarrow> (False, s\<lparr>catcher := catcher s @ [err]\<rparr>)
      | Inr count \<Rightarrow>
          if count > 0 then (False, s)
          else
            (case CountDocuments (countPendingErr e nextColl) (documents (pworld s) nextColl)
                    pending of
               Inl err \<Rightarrow> (False, s\<lparr>catcher := catcher s @ [err]\<rparr>)
             | Inr count' \<Rightarrow>
                 if count' > 0 then (False, s)
                 else
                   (case map_of (queues g) (idFromCollection g nextColl) of
                      Some queue \<Rightarrow>
                        (let s1 = s\<lparr>pworld := (pworld s)\<lparr>closed := closed (pworld s) @ [queue]\<rparr>\<rparr>
                         in if ctxDoneDrop e nextColl then (False, s1)
                            else (True,
                                  dropColl e nextColl
                                    (s1\<lparr>collsDeleteChan :=
                                          collsDeleteChan s1 @ [idFromCollection g nextColl]\<rparr>)))
                    | None \<Rightarrow> (True, dropColl e nextColl s))))"

text \<open>
  The worker pool. \<open>runtime.NumCPU()\<close> goroutines receive from the closed, buffered
  channel \<open>collsDropChan\<close>, which holds the candidates in order. A worker that returns
  receives nothing more; the others go on. Each turn that ends in a \<open>return\<close> ends
  exactly one worker, and a worker ends in no other way before the channel is empty, so
  the candidates received are the same under every schedule: the ones up to the
  candidate that ends the last worker. Turns on different candidates touch different
  collections, so the pool is run here one candidate after the other, in channel order,
  with the number of workers still receiving as the first argument. Only the order of the
  entries in the catcher, in \<open>collsDeleteChan\<close> and in the log of closed runners
  depends on the schedule.
\<close>

fun pruneWorkers ::
  "env \<Rightarrow> remoteMongoQueueGroup \<Rightarrow> int \<Rightarrow> nat \<Rightarrow> string list \<Rightarrow> pruneState \<Rightarrow> pruneState" where
  "pruneWorkers e g now 0 cs s = s"
| "pruneWorkers e g now (Suc n) [] s = s"
| "pruneWorkers e g now (Suc n) (c # cs) s =
     (case pruneColl e g now c s of
        (True, s') \<Rightarrow> pruneWorkers e g now (Suc n) cs s'
      | (False, s') \<Rightarrow> pruneWorkers e g now n cs s')"

text \<open>The candidates some worker receives, by the same recursion.\<close>

fun received ::
  "env \<Rightarrow> remoteMongoQueueGroup \<Rightarrow> int \<Rightarrow> nat \<Rightarrow> string list \<Rightarrow> pruneState \<Rightarrow> string list" where
  "received e g now 0 cs s = []"
| "received e g now (Suc n) [] s = []"
| "received e g now (Suc n) (c # cs) s =
     c # (case pruneColl e g now c s of
            (True, s') \<Rightarrow> received e g now (Suc n) cs s'
          | (False, s') \<Rightarrow> received e g now n cs s')"

text \<open>The loops \<open>for id := range ...DeleteChan\<close>: both maps lose the id.\<close>

fun deleteIDs :: "string list \<Rightarrow> remoteMongoQueueGroup \<Rightarrow> remoteMongoQueueGroup" where
  "deleteIDs [] g = g"
| "deleteIDs (qid # ids) g =
     deleteIDs ids (g\<lparr>queues := AList.delete qid (queues g),
                      ttlMap := AList.delete qid (ttlMap g)\<rparr>)"

text \<open>
  The second pass, over the entries of \<open>g.queues\<close>: an id that is the id of a checked
  collection is skipped (\<open>continue outer\<close>); for any other id the runner is closed and,
  unless the \<open>select\<close> takes \<open>ctx.Done()\<close>, the id is sent to \<open>queuesDeleteChan\<close>.
\<close>

fun closeQueues ::
  "env \<Rightarrow> remoteMongoQueueGroup \<Rightarrow> string list \<Rightarrow> (string \<times> nat) list
     \<Rightarrow> world \<times> string list \<Rightarrow> world \<times> string list" where
  "closeQueues e g collsToCheck [] acc = acc"
| "closeQueues e g collsToCheck ((qid, q) # rest) (w, queuesDeleteChan) =
     (if qid \<in> set (map (idFromCollection g) collsToCheck)
      then closeQueues e g collsToCheck rest (w, queuesDeleteChan)
      else closeQueues e g collsToCheck rest
             (w\<lparr>closed := closed w @ [q]\<rparr>,
              if ctxDoneClose e qid then queuesDeleteChan else queuesDeleteChan @ [qid]))"

definition collsToCheckOf :: "remoteMongoQueueGroup \<Rightarrow> int \<Rightarrow> string list \<Rightarrow> string list" where
  "collsToCheckOf g now cs = filter (needsCheck g now) cs"

definition Prune ::
  "env \<Rightarrow> int \<Rightarrow> remoteMongoQueueGroup \<Rightarrow> world
     \<Rightarrow> error option \<times> remoteMongoQueueGroup \<times> world" where
  "Prune e now g w =
     (case getExistingCollections e w (prefix g) of
        Inl err \<Rightarrow> (Some (Wrap err ''problem getting collections''), g, w)
      | Inr cs \<Rightarrow>
          (let collsToCheck = collsToCheckOf g now cs;
               s = pruneWorkers e g now (NumCPU e) collsToCheck
                     \<lparr>pworld = w, catcher = [], collsDeleteChan = []\<rparr>;
               g1 = deleteIDs (collsDeleteChan s) g;
               (w2, queuesDeleteChan) = closeQueues e g1 collsToCheck (queues g1) (pworld s, []);
               g2 = deleteIDs queuesDeleteChan g1
           in (Resolve (catcher s), g2, w2)))"

text \<open>The candidates of a pass that a worker receives and counts.\<close>

definition examined :: "env \<Rightarrow> int \<Rightarrow> remoteMongoQueueGroup \<Rightarrow> world \<Rightarrow> string list" where
  "examined e now g w =
     (case getExistingCollections e w (prefix g) of
        Inl err \<Rightarrow> []
      | Inr cs \<Rightarrow>
          received e g now (NumCPU e) (collsToCheckOf g now cs)
            \<lparr>pworld = w, catcher = [], collsDeleteChan = []\<rparr>)"

subsection \<open>Construction\<close>

text \<open>The loop over the discovered collections: a queue that fails to start adds its
  error to the catcher, any other is registered with the time of now.\<close>

fun startAll ::
  "env \<Rightarrow> int \<Rightarrow> string list \<Rightarrow> remoteMongoQueueGroup \<times> error list \<times> world
     \<Rightarrow> remoteMongoQueueGroup \<times> error list \<times> world" where
  "startAll e now [] acc = acc"
| "startAll e now (coll # rest) (g, errs, w) =
     (case startProcessingRemoteQueue e coll w of
        (Inl err, w') \<Rightarrow>
          startAll e now rest (g, errs @ [Wrap err ''problem starting queue''], w')
      | (Inr q, w') \<Rightarrow>
          startAll e now rest
            (g\<lparr>queues := AList.update (idFromCollection g coll) q (queues g),
               ttlMap := AList.update (idFromCollection g coll) now (ttlMap g)\<rparr>,
             errs, w'))"

definition NewMongoRemoteQueueGroup ::
  "env \<Rightarrow> int \<Rightarrow> RemoteQueueGroupOptions \<Rightarrow> MongoDBOptions \<Rightarrow> world
     \<Rightarrow> (error + remoteMongoQueueGroup) \<times> world" where
  "NewMongoRemoteQueueGroup e now opts mdbopts w =
     (case validate e opts of
        Some err \<Rightarrow> (Inl (Wrap err ''invalid remote queue options''), w)
      | None \<Rightarrow>
          if DB mdbopts = [] then (Inl (New ''no database name specified''), w)
          else if URI mdbopts = [] then (Inl (New ''no mongodb uri specified''), w)
          else
            (let g = \<lparr>mongooptions = mdbopts, prefix = Prefix opts,
                      pruneFrequency = PruneFrequency opts, queues = [],
                      ttl = TTL opts, ttlMap = []\<rparr>
             in case (if PruneFrequency opts > 0 \<and> TTL opts > 0
                      then Prune e now g w else (None, g, w)) of
                  (Some err, g1, w1) \<Rightarrow> (Inl (Wrap err ''problem pruning queue''), w1)
                | (None, g1, w1) \<Rightarrow>
                    (case getExistingCollections e w1 (prefix g1) of
                       Inl err \<Rightarrow> (Inl (Wrap err ''problem getting existing collections''), w1)
                     | Inr cs \<Rightarrow>
                         (case startAll e now cs (g1, [], w1) of
                            (g2, errs, w2) \<Rightarrow>
                              if errs \<noteq> [] then (Inl (Resolved errs), w2)
                              else (Inr g2,
                                    if PruneFrequency opts > 0 \<and> TTL opts > 0
                                    then w2\<lparr>pruneLoop := True\<rparr> else w2)))))"

subsection \<open>Predicates used in the statements\<close>

text \<open>Both counts of \<open>pruneColl\<close> come back as zero for collection \<open>c\<close> in world
  \<open>w\<close>: neither query fails, and neither finds a document.\<close>

definition bothCountsZero ::
  "env \<Rightarrow> int \<Rightarrow> remoteMongoQueueGroup \<Rightarrow> world \<Rightarrow> string \<Rightarrow> bool" where
  "bothCountsZero e now g w c =
     (CountDocuments (countCompletedErr e c) (documents w c) (recentlyCompleted now (ttl g)) = Inr 0
      \<and> CountDocuments (countPendingErr e c) (documents w c) pending = Inr 0)"

text \<open>The registry and the last-access table have the same keys.\<close>

definition sameKeys :: "remoteMongoQueueGroup \<Rightarrow> bool" where
  "sameKeys g = (fst ` set (queues g) = fst ` set (ttlMap g))"

text \<open>
  The error, if any, with which \<open>startProcessingRemoteQueue\<close> fails on collection
  \<open>coll\<close> when the constructor hands out handle \<open>q\<close> (its four steps in order), and
  the errors the loop of construction has to collect for the collections \<open>cs\<close> when the
  next handle is \<open>q\<close>: one for each collection whose queue fails to start, in order.
  Lemmas \<open>startProcessingRemoteQueue_result\<close> and \<open>startAll_errors\<close> tie both to the
  operations.
\<close>

definition startFailure :: "env \<Rightarrow> string \<Rightarrow> nat \<Rightarrow> error option" where
  "startFailure e coll q =
     (case constructorErr e q of
        Some err \<Rightarrow> Some (Wrap err ''problem starting queue'')
      | None \<Rightarrow>
          (case openDriverErr e (trimJobsSuffix coll) of
             Some err \<Rightarrow> Some (Wrap err ''problem opening driver'')
           | None \<Rightarrow>
               (case setDriverErr e q of
                  Some err \<Rightarrow> Some (Wrap err ''problem setting driver'')
                | None \<Rightarrow>
                    (case startErr e q of
                       Some err \<Rightarrow> Some (Wrap err ''problem starting queue'')
                     | None \<Rightarrow> None))))"

fun startErrors :: "env \<Rightarrow> nat \<Rightarrow> string list \<Rightarrow> error list" where
  "startErrors e q [] = []"
| "startErrors e q (coll # rest) =
     (case startFailure e coll q of
        Some err \<Rightarrow> [Wrap err ''problem starting queue'']
      | None \<Rightarrow> []) @ startErrors e (Suc q) rest"

subsection \<open>Concrete inputs\<close>

text \<open>
  A healthy environment with two processors, in which the store's regular expression is
  a literal prefix test (exact for the names used below), and the inputs on which the
  statements are instantiated. \<open>gAlpha\<close> and \<open>wAlpha\<close> are the spec's scenario:
  prefix \<open>svc.\<close>, a TTL of 3600, the empty collection \<open>svc.alpha.jobs\<close>, and id
  \<open>alpha\<close> registered at time 1000.
\<close>

definition env0 :: env where
  "env0 = \<lparr>validate = (\<lambda>_. None), regexMatch = (\<lambda>p n. HasPrefix n p), listErr = None,
     decodeErr = (\<lambda>_. None), cursorErr = None, cursorCloseErr = None,
     constructorErr = (\<lambda>_. None), openDriverErr = (\<lambda>_. None), setDriverErr = (\<lambda>_. None),
     startErr = (\<lambda>_. None), countCompletedErr = (\<lambda>_. None), countPendingErr = (\<lambda>_. None),
     dropErr = (\<lambda>_. None), ctxDoneDrop = (\<lambda>_. False), ctxDoneClose = (\<lambda>_. False),
     NumCPU = 2\<rparr>"

definition mdb :: MongoDBOptions where
  "mdb = \<lparr>DB = ''amboy'', URI = ''mongodb://localhost''\<rparr>"

definition gAlpha :: remoteMongoQueueGroup where
  "gAlpha = \<lparr>mongooptions = mdb, prefix = ''svc.'', pruneFrequency = 60,
     queues = [(''alpha'', 0)], ttl = 3600, ttlMap = [(''alpha'', 1000)]\<rparr>"

definition wAlpha :: world where
  "wAlpha = \<lparr>colls = [(''svc.alpha.jobs'', [])], constructed = 1, drivers = [(0, ''svc.alpha'')],
     started = [0], closed = [], pruneLoop = True\<rparr>"

text \<open>A group with an empty registry, and stores with two and with three collections,
  in the order in which the store lists them.\<close>

definition gIdle :: remoteMongoQueueGroup where
  "gIdle = \<lparr>mongooptions = mdb, prefix = ''svc.'', pruneFrequency = 60,
     queues = [], ttl = 3600, ttlMap = []\<rparr>"

definition wTwo :: world where
  "wTwo = \<lparr>colls = [(''svc.a.jobs'', []), (''svc.b.jobs'', [])],
     constructed = 0, drivers = [], started = [], closed = [], pruneLoop = False\<rparr>"

definition wThree :: world where
  "wThree = \<lparr>colls = [(''svc.idle.jobs'', []),
                      (''svc.busy.jobs'', [\<lparr>completed = False, in_prog = True, mod_ts = 100\<rparr>]),
                      (''svc.done.jobs'', [\<lparr>completed = True, in_prog = False, mod_ts = 9000\<rparr>])],
     constructed = 0, drivers = [], started = [], closed = [], pruneLoop = False\<rparr>"

definition wBusyDoneIdle :: world where
  "wBusyDoneIdle = \<lparr>colls = [(''svc.busy.jobs'', [\<lparr>completed = False, in_prog = True, mod_ts = 100\<rparr>]),
                      (''svc.done.jobs'', [\<lparr>completed = True, in_prog = False, mod_ts = 9000\<rparr>]),
                      (''svc.idle.jobs'', [])],
     constructed = 0, drivers = [], started = [], closed = [], pruneLoop = False\<rparr>"

definition wBusyB :: world where
  "wBusyB = \<lparr>colls = [(''svc.busy.jobs'', [\<lparr>completed = False, in_prog = True, mod_ts = 100\<rparr>]),
                      (''svc.b.jobs'', [])],
     constructed = 0, drivers = [], started = [], closed = [], pruneLoop = False\<rparr>"

definition wBusyFirst :: world where
  "wBusyFirst = \<lparr>colls = [(''svc.a.jobs'', []),
                      (''svc.busy.jobs'', [\<lparr>completed = False, in_prog = True, mod_ts = 100\<rparr>]),
                      (''svc.b.jobs'', [])],
     constructed = 0, drivers = [], started = [], closed = [], pruneLoop = False\<rparr>"

text \<open>The healthy environment with one processor, and environments in which one call
  fails: the count on \<open>svc.a.jobs\<close> (with one and with two processors), \<open>Start\<close> on
  every queue, and \<open>Start\<close> on every queue but the one with handle 1.\<close>

definition envHealthyOneCPU :: env where
  "envHealthyOneCPU = env0\<lparr>NumCPU := 1\<rparr>"

definition envCountFails :: env where
  "envCountFails = env0\<lparr>countCompletedErr :=
     (\<lambda>c. if c = ''svc.a.jobs'' then Some (External ''count failed'') else None)\<rparr>"

definition envOneCPU :: env where
  "envOneCPU = envCountFails\<lparr>NumCPU := 1\<rparr>"

definition envStartFails :: env where
  "envStartFails = env0\<lparr>startErr := (\<lambda>_. Some (External ''cannot start''))\<rparr>"

definition envTwoFail :: env where
  "envTwoFail = env0\<lparr>startErr := (\<lambda>q. if q = 1 then None else Some (External ''cannot start''))\<rparr>"

definition optsNoPrune :: RemoteQueueGroupOptions where
  "optsNoPrune = \<lparr>Prefix = ''svc.'', PruneFrequency = 0, TTL = 0\<rparr>"

section \<open>Properties\<close>

subsection \<open>Evaluation\<close>

text \<open>The equations that reduce the operations on the concrete inputs.\<close>

text \<open>Go's negation of a duration is the negation of the integer, but for the least
  int64, which it leaves as it is.\<close>

lemma negDuration_in_range:
  assumes "- (2 ^ 63) < d" and "d < 2 ^ 63"
  shows "negDuration d = - d"
proof -
  have a: "sint (word_of_int d :: 64 word) = d"
    using assms by (simp add: sint_sbintrunc' signed_take_bit_int_eq_self)
  have "sint (- (word_of_int d :: 64 word)) = signed_take_bit 63 (- sint (word_of_int d :: 64 word))"
    by (simp add: sint_word_ariths)
  also have "\<dots> = - d"
    using assms by (simp add: a signed_take_bit_int_eq_self)
  finally show ?thesis by (simp add: negDuration_def)
qed

lemma negDuration_least: "negDuration (- (2 ^ 63)) = - (2 ^ 63)"
  by (simp add: negDuration_def)

lemma negDuration_3600: "negDuration 3600 = - 3600"
  by (simp add: negDuration_in_range)

text \<open>With the least int64 as TTL the cutoff lies \<open>2 ^ 63\<close> nanoseconds before now,
  not after it.\<close>

lemma recentlyCompleted_least_ttl:
  "recentlyCompleted now (- (2 ^ 63)) d =
     (completed d \<and> \<not> in_prog d \<and> now - 2 ^ 63 \<le> mod_ts d)"
  using negDuration_least by (simp add: recentlyCompleted_def)

lemmas eval_defs =
  Prune_def examined_def getExistingCollections_def collsToCheckOf_def needsCheck_def
  idFromCollection_def collectionFromID_def addJobsSuffix_def trimJobsSuffix_def
  TrimSuffix_def HasSuffix_def TrimPrefix_def HasPrefix_def Resolve_def pruneColl_def
  dropColl_def CountDocuments_def documents_def recentlyCompleted_def pending_def
  startProcessingRemoteQueue_def Let_def numeral_2_eq_2 negDuration_3600

lemmas input_defs =
  env0_def mdb_def gAlpha_def wAlpha_def gIdle_def wTwo_def wThree_def wBusyFirst_def
  wBusyDoneIdle_def wBusyB_def envHealthyOneCPU_def
  envCountFails_def envOneCPU_def envStartFails_def envTwoFail_def optsNoPrune_def

subsection \<open>Names\<close>

lemma TrimPrefix_append: "TrimPrefix (p @ s) p = s"
  by (simp add: TrimPrefix_def HasPrefix_def)

lemma TrimSuffix_append: "TrimSuffix (s @ suf) suf = s"
  by (simp add: TrimSuffix_def HasSuffix_def)

lemma trimJobsSuffix_addJobsSuffix: "trimJobsSuffix (addJobsSuffix s) = s"
  by (simp add: trimJobsSuffix_def addJobsSuffix_def TrimSuffix_append)

text \<open>
  Claim C8. For every prefix and every logical id, the id recovered from the collection
  name of that id is the id itself: \<open>idFromCollection\<close> (strip the prefix, then strip
  the queue suffix) undoes \<open>collectionFromID\<close> (prefix, id, queue suffix).
\<close>

theorem idFromCollection_collectionFromID:
  "idFromCollection g (collectionFromID g qid) = qid"
  by (simp add: idFromCollection_def collectionFromID_def addJobsSuffix_def trimJobsSuffix_def
      TrimPrefix_append TrimSuffix_append)

theorem idFromCollection_collectionFromID_witness:
  "collectionFromID gAlpha ''alpha'' = ''svc.alpha.jobs''
   \<and> idFromCollection gAlpha ''svc.alpha.jobs'' = ''alpha''"
  using idFromCollection_collectionFromID [of gAlpha "''alpha''"]
  by (simp add: collectionFromID_def addJobsSuffix_def gAlpha_def)

subsection \<open>Put\<close>

text \<open>
  Claim C4. When the id is already in the registry, \<open>Put\<close> returns the error
  "a queue already exists at this index" and the group is as before: the handle is not
  replaced and the last-access entry is not touched. When the id is absent, \<open>Put\<close>
  returns no error, stores the handle under the id and sets its last access to now.
\<close>

theorem Put_conflict_or_register:
  "(map_of (queues g) qid \<noteq> None \<longrightarrow>
      Put now qid queue g = (Some (New ''a queue already exists at this index''), g))
   \<and> (map_of (queues g) qid = None \<longrightarrow>
      Put now qid queue g =
        (None, g\<lparr>queues := AList.update qid queue (queues g),
                 ttlMap := AList.update qid now (ttlMap g)\<rparr>)
      \<and> map_of (queues (snd (Put now qid queue g))) qid = Some queue
      \<and> map_of (ttlMap (snd (Put now qid queue g))) qid = Some now)"
  by (auto simp: Put_def update_conv')

theorem Put_conflict_or_register_witness:
  "map_of (queues gAlpha) ''alpha'' \<noteq> None
   \<and> Put 2000 ''alpha'' 7 gAlpha = (Some (New ''a queue already exists at this index''), gAlpha)
   \<and> map_of (queues gAlpha) ''beta'' = None
   \<and> Put 2000 ''beta'' 7 gAlpha =
        (None, gAlpha\<lparr>queues := [(''alpha'', 0), (''beta'', 7)],
                      ttlMap := [(''alpha'', 1000), (''beta'', 2000)]\<rparr>)
   \<and> map_of (queues (snd (Put 2000 ''beta'' 7 gAlpha))) ''beta'' = Some 7
   \<and> map_of (ttlMap (snd (Put 2000 ''beta'' 7 gAlpha))) ''beta'' = Some 2000"
  using Put_conflict_or_register [of gAlpha "''alpha''" 2000 7]
    Put_conflict_or_register [of gAlpha "''beta''" 2000 7]
  by (simp add: gAlpha_def)

subsection \<open>Get\<close>

lemma startProcessingRemoteQueue_ok:
  assumes "constructorErr e (constructed w) = None"
    and "openDriverErr e (trimJobsSuffix coll) = None"
    and "setDriverErr e (constructed w) = None"
    and "startErr e (constructed w) = None"
  shows "startProcessingRemoteQueue e coll w =
     (Inr (constructed w),
      w\<lparr>constructed := Suc (constructed w),
        drivers := drivers w @ [(constructed w, trimJobsSuffix coll)],
        started := started w @ [constructed w]\<rparr>)"
  using assms by (simp add: startProcessingRemoteQueue_def Let_def)

lemma startProcessingRemoteQueue_fails:
  assumes "constructorErr e (constructed w) \<noteq> None
      \<or> openDriverErr e (trimJobsSuffix coll) \<noteq> None
      \<or> setDriverErr e (constructed w) \<noteq> None
      \<or> startErr e (constructed w) \<noteq> None"
  shows "\<exists>err. fst (startProcessingRemoteQueue e coll w) = Inl err"
  using assms by (auto simp: startProcessingRemoteQueue_def Let_def split: option.splits)

text \<open>
  Claim C5. When the id is in the registry, \<open>Get\<close> returns the registered handle and
  sets the id's last access to now; nothing outside the group happens. When the id is
  absent and the four steps succeed, \<open>Get\<close> derives the collection name from the id,
  calls the constructor (which hands out the next handle), sets a driver opened on that
  name (less the suffix, which \<open>startProcessingRemoteQueue\<close> trims), starts the queue,
  registers the handle with last access now, and returns it.
\<close>

theorem Get_returns_or_creates:
  "(map_of (queues g) qid = Some q \<longrightarrow>
      Get e now qid g w = (Inr q, g\<lparr>ttlMap := AList.update qid now (ttlMap g)\<rparr>, w)
      \<and> map_of (ttlMap (fst (snd (Get e now qid g w)))) qid = Some now)
   \<and> (map_of (queues g) qid = None
        \<and> constructorErr e (constructed w) = None
        \<and> openDriverErr e (trimJobsSuffix (collectionFromID g qid)) = None
        \<and> setDriverErr e (constructed w) = None
        \<and> startErr e (constructed w) = None \<longrightarrow>
      Get e now qid g w =
        (Inr (constructed w),
         g\<lparr>queues := AList.update qid (constructed w) (queues g),
           ttlMap := AList.update qid now (ttlMap g)\<rparr>,
         w\<lparr>constructed := Suc (constructed w),
           drivers := drivers w @ [(constructed w, trimJobsSuffix (collectionFromID g qid))],
           started := started w @ [constructed w]\<rparr>)
      \<and> map_of (queues (fst (snd (Get e now qid g w)))) qid = Some (constructed w)
      \<and> map_of (ttlMap (fst (snd (Get e now qid g w)))) qid = Some now)"
  by (auto simp: Get_def update_conv' startProcessingRemoteQueue_ok)

theorem Get_returns_or_creates_witness:
  "map_of (queues gAlpha) ''alpha'' = Some 0
   \<and> Get env0 2000 ''alpha'' gAlpha wAlpha = (Inr 0, gAlpha\<lparr>ttlMap := [(''alpha'', 2000)]\<rparr>, wAlpha)
   \<and> map_of (ttlMap (fst (snd (Get env0 2000 ''alpha'' gAlpha wAlpha)))) ''alpha'' = Some 2000
   \<and> map_of (queues gAlpha) ''beta'' = None
   \<and> constructorErr env0 (constructed wAlpha) = None
   \<and> openDriverErr env0 (trimJobsSuffix (collectionFromID gAlpha ''beta'')) = None
   \<and> setDriverErr env0 (constructed wAlpha) = None
   \<and> startErr env0 (constructed wAlpha) = None
   \<and> Get env0 2000 ''beta'' gAlpha wAlpha =
        (Inr 1,
         gAlpha\<lparr>queues := [(''alpha'', 0), (''beta'', 1)],
                ttlMap := [(''alpha'', 1000), (''beta'', 2000)]\<rparr>,
         wAlpha\<lparr>constructed := 2,
                drivers := [(0, ''svc.alpha''), (1, ''svc.beta'')],
                started := [0, 1]\<rparr>)
   \<and> map_of (queues (fst (snd (Get env0 2000 ''beta'' gAlpha wAlpha)))) ''beta'' = Some 1
   \<and> map_of (ttlMap (fst (snd (Get env0 2000 ''beta'' gAlpha wAlpha)))) ''beta'' = Some 2000"
  using Get_returns_or_creates [of gAlpha "''alpha''" 0 env0 2000 wAlpha]
    Get_returns_or_creates [of gAlpha "''beta''" 0 env0 2000 wAlpha]
  by (simp add: gAlpha_def wAlpha_def env0_def collectionFromID_def addJobsSuffix_def
      trimJobsSuffix_def TrimSuffix_def HasSuffix_def)

text \<open>
  Claim C10. When the id is absent from the registry and a step of starting its queue
  fails (the constructor, the opening of the driver, \<open>SetDriver\<close> or \<open>Start\<close>),
  \<open>Get\<close> returns the error wrapped as "problem starting queue" and the group is as
  before: neither the registry nor the last-access table has a new entry.
\<close>

theorem Get_failure_leaves_group:
  assumes "map_of (queues g) qid = None"
    and "constructorErr e (constructed w) \<noteq> None
      \<or> openDriverErr e (trimJobsSuffix (collectionFromID g qid)) \<noteq> None
      \<or> setDriverErr e (constructed w) \<noteq> None
      \<or> startErr e (constructed w) \<noteq> None"
  shows "\<exists>err. fst (Get e now qid g w) = Inl (Wrap err ''problem starting queue'')
           \<and> fst (snd (Get e now qid g w)) = g"
proof -
  from assms(2) obtain err where
    "fst (startProcessingRemoteQueue e (collectionFromID g qid) w) = Inl err"
    using startProcessingRemoteQueue_fails by blast
  then show ?thesis
    using assms(1) by (cases "startProcessingRemoteQueue e (collectionFromID g qid) w")
      (auto simp: Get_def)
qed

theorem Get_failure_leaves_group_witness:
  "map_of (queues gAlpha) ''beta'' = None
   \<and> startErr envStartFails (constructed wAlpha) \<noteq> None
   \<and> fst (Get envStartFails 2000 ''beta'' gAlpha wAlpha) =
       Inl (Wrap (Wrap (External ''cannot start'') ''problem starting queue'')
              ''problem starting queue'')
   \<and> fst (snd (Get envStartFails 2000 ''beta'' gAlpha wAlpha)) = gAlpha"
proof -
  have a: "map_of (queues gAlpha) ''beta'' = None" by (simp add: gAlpha_def)
  have b: "startErr envStartFails (constructed wAlpha) \<noteq> None"
    by (simp add: envStartFails_def)
  from Get_failure_leaves_group [OF a, of envStartFails wAlpha 2000] b
  have "fst (snd (Get envStartFails 2000 ''beta'' gAlpha wAlpha)) = gAlpha" by blast
  moreover have "fst (Get envStartFails 2000 ''beta'' gAlpha wAlpha) =
       Inl (Wrap (Wrap (External ''cannot start'') ''problem starting queue'')
              ''problem starting queue'')"
    by (simp add: Get_def startProcessingRemoteQueue_def envStartFails_def env0_def
        gAlpha_def wAlpha_def Let_def)
  ultimately show ?thesis using a b by simp
qed

subsection \<open>Prune: which collections are dropped\<close>

lemma decodeAll_Inr: "decodeAll e ns acc = Inr r \<Longrightarrow> r = acc @ ns"
proof (induction ns arbitrary: acc)
  case Nil
  then show ?case by simp
next
  case (Cons a ns)
  from Cons.prems have "decodeAll e ns (acc @ [a]) = Inr r"
    by (simp split: option.splits)
  from Cons.IH [OF this] show ?case by simp
qed

lemma getExistingCollections_subset:
  "getExistingCollections e w pfx = Inr cs \<Longrightarrow> set cs \<subseteq> fst ` set (colls w)"
  by (auto simp: getExistingCollections_def split: option.splits sum.splits dest!: decodeAll_Inr)

lemma bothCountsZero_cong:
  "map_of (colls w1) c = map_of (colls w2) c \<Longrightarrow>
     bothCountsZero e now g w1 c = bothCountsZero e now g w2 c"
  by (simp add: bothCountsZero_def documents_def)

lemma dropColl_colls:
  "colls (pworld (dropColl e c s)) =
     (if dropErr e c = None then AList.delete c (colls (pworld s)) else colls (pworld s))"
  by (auto simp: dropColl_def split: option.splits)

text \<open>One turn of a worker: the store is left alone unless both counts are zero, and
  then at most the collection of that turn goes.\<close>

lemma pruneColl_blocked:
  "\<not> bothCountsZero e now g (pworld s) c \<Longrightarrow>
     colls (pworld (snd (pruneColl e g now c s))) = colls (pworld s)"
  by (auto simp: pruneColl_def bothCountsZero_def split: sum.splits option.splits)

lemma pruneColl_colls_cases:
  "colls (pworld (snd (pruneColl e g now c s))) = colls (pworld s)
   \<or> colls (pworld (snd (pruneColl e g now c s))) = AList.delete c (colls (pworld s))"
  by (auto simp: pruneColl_def Let_def dropColl_colls split: sum.splits option.splits)

lemma pruneColl_drops:
  "bothCountsZero e now g (pworld s) c \<Longrightarrow> dropErr e c = None \<Longrightarrow> \<not> ctxDoneDrop e c \<Longrightarrow>
     colls (pworld (snd (pruneColl e g now c s))) = AList.delete c (colls (pworld s))"
  by (auto simp: pruneColl_def bothCountsZero_def Let_def dropColl_colls
      split: sum.splits option.splits)

lemma pruneColl_other:
  "c' \<noteq> c \<Longrightarrow>
     map_of (colls (pworld (snd (pruneColl e g now c s)))) c' = map_of (colls (pworld s)) c'"
  using pruneColl_colls_cases [of e g now c s] by (auto simp: delete_conv')

lemma pruneColl_keys:
  "fst ` set (colls (pworld (snd (pruneColl e g now c s)))) \<subseteq> fst ` set (colls (pworld s))"
  using pruneColl_colls_cases [of e g now c s]
  by (elim disjE) (simp_all add: dom_delete_subset)

text \<open>The pool: by induction along \<open>pruneWorkers\<close>.\<close>

lemma pruneWorkers_keys:
  "fst ` set (colls (pworld (pruneWorkers e g now n cs s))) \<subseteq> fst ` set (colls (pworld s))"
proof (induction e g now n cs s rule: pruneWorkers.induct)
  case (3 e g now n c cs s)
  obtain b s' where p: "pruneColl e g now c s = (b, s')" by (cases "pruneColl e g now c s")
  have k: "fst ` set (colls (pworld s')) \<subseteq> fst ` set (colls (pworld s))"
    using pruneColl_keys [of e g now c s] p by simp
  show ?case
  proof (cases b)
    case True
    with 3(1) [of b s'] p k show ?thesis by auto
  next
    case False
    with 3(2) [of b s'] p k show ?thesis by auto
  qed
qed simp_all

lemma pruneWorkers_blocked:
  "\<not> bothCountsZero e now g (pworld s) c \<Longrightarrow>
     map_of (colls (pworld (pruneWorkers e g now n cs s))) c = map_of (colls (pworld s)) c"
proof (induction e g now n cs s rule: pruneWorkers.induct)
  case (3 e g now n c0 cs s)
  obtain b s' where p: "pruneColl e g now c0 s = (b, s')" by (cases "pruneColl e g now c0 s")
  have m: "map_of (colls (pworld s')) c = map_of (colls (pworld s)) c"
  proof (cases "c0 = c")
    case True
    with 3(3) pruneColl_blocked [of e now g s c] p show ?thesis by simp
  next
    case False
    with pruneColl_other [of c c0 e g now s] p show ?thesis by simp
  qed
  then have nb: "\<not> bothCountsZero e now g (pworld s') c"
    using 3(3) bothCountsZero_cong [of "pworld s'" c "pworld s"] by simp
  show ?case
  proof (cases b)
    case True
    with 3(1) [of b s'] p nb m show ?thesis by simp
  next
    case False
    with 3(2) [of b s'] p nb m show ?thesis by simp
  qed
qed simp_all

lemma received_subset: "set (received e g now n cs s) \<subseteq> set cs"
proof (induction e g now n cs s rule: received.induct)
  case (3 e g now n c cs s)
  obtain b s' where p: "pruneColl e g now c s = (b, s')" by (cases "pruneColl e g now c s")
  show ?case
  proof (cases b)
    case True
    with 3(1) [of b s'] p show ?thesis by auto
  next
    case False
    with 3(2) [of b s'] p show ?thesis by auto
  qed
qed simp_all

lemma pruneWorkers_drops_examined:
  "c \<in> set (received e g now n cs s) \<Longrightarrow> bothCountsZero e now g (pworld s) c \<Longrightarrow>
   dropErr e c = None \<Longrightarrow> \<not> ctxDoneDrop e c \<Longrightarrow>
     c \<notin> fst ` set (colls (pworld (pruneWorkers e g now n cs s)))"
proof (induction e g now n cs s rule: pruneWorkers.induct)
  case (3 e g now n c0 cs s)
  obtain b s' where p: "pruneColl e g now c0 s = (b, s')" by (cases "pruneColl e g now c0 s")
  show ?case
  proof (cases "c0 = c")
    case True
    have "colls (pworld s') = AList.delete c (colls (pworld s))"
      using pruneColl_drops [of e now g s c] 3(4,5,6) p True by simp
    then have gone: "c \<notin> fst ` set (colls (pworld s'))"
      using delete_notin_dom [of c "colls (pworld s)"] by simp
    have "fst ` set (colls (pworld (pruneWorkers e g now (Suc n) (c0 # cs) s)))
            \<subseteq> fst ` set (colls (pworld s'))"
      using p pruneWorkers_keys [of e g now "Suc n" cs s'] pruneWorkers_keys [of e g now n cs s']
      by (cases b) simp_all
    with gone show ?thesis by blast
  next
    case False
    have m: "map_of (colls (pworld s')) c = map_of (colls (pworld s)) c"
      using pruneColl_other [of c c0 e g now s] p False by simp
    then have z: "bothCountsZero e now g (pworld s') c"
      using 3(4) bothCountsZero_cong [of "pworld s'" c "pworld s"] by simp
    show ?thesis
    proof (cases b)
      case True
      with 3(3) p False have "c \<in> set (received e g now (Suc n) cs s')" by simp
      with 3(1) [of b s'] p True z 3(5,6) show ?thesis by simp
    next
      case b_False: False
      with 3(3) p False have "c \<in> set (received e g now n cs s')" by simp
      with 3(2) [of b s'] p b_False z 3(5,6) show ?thesis by simp
    qed
  qed
qed simp_all

lemma closeQueues_colls:
  "colls (fst (closeQueues e g ctc qs (w, ch))) = colls w"
  by (induction qs arbitrary: w ch) auto

text \<open>The whole pass.\<close>

lemma Prune_list_fails:
  "getExistingCollections e w (prefix g) = Inl err \<Longrightarrow>
     Prune e now g w = (Some (Wrap err ''problem getting collections''), g, w)"
  by (simp add: Prune_def)

lemma Prune_colls:
  assumes "getExistingCollections e w (prefix g) = Inr cs"
  shows "colls (snd (snd (Prune e now g w))) =
     colls (pworld (pruneWorkers e g now (NumCPU e) (collsToCheckOf g now cs)
        \<lparr>pworld = w, catcher = [], collsDeleteChan = []\<rparr>))"
proof -
  define s where "s = pruneWorkers e g now (NumCPU e) (collsToCheckOf g now cs)
        \<lparr>pworld = w, catcher = [], collsDeleteChan = []\<rparr>"
  define g1 where "g1 = deleteIDs (collsDeleteChan s) g"
  obtain w2 ch where
    c: "closeQueues e g1 (collsToCheckOf g now cs) (queues g1) (pworld s, []) = (w2, ch)"
    by (cases "closeQueues e g1 (collsToCheckOf g now cs) (queues g1) (pworld s, [])")
  have "colls w2 = colls (pworld s)"
    using closeQueues_colls [of e g1 "collsToCheckOf g now cs" "queues g1" "pworld s" "[]"] c
    by simp
  moreover have "snd (snd (Prune e now g w)) = w2"
    using assms c by (simp add: Prune_def Let_def s_def g1_def)
  ultimately show ?thesis by (simp add: s_def)
qed

lemma blocking_doc_not_zero:
  assumes "d \<in> set (documents w c)" and "pending d \<or> recentlyCompleted now (ttl g) d"
  shows "\<not> bothCountsZero e now g w c"
proof -
  from assms have "filter pending (documents w c) \<noteq> []
      \<or> filter (recentlyCompleted now (ttl g)) (documents w c) \<noteq> []"
    by (auto simp: filter_empty_conv)
  then show ?thesis
    by (auto simp: bothCountsZero_def CountDocuments_def split: option.splits)
qed

lemma empty_collection_zero:
  "documents w c = [] \<Longrightarrow> countCompletedErr e c = None \<Longrightarrow> countPendingErr e c = None \<Longrightarrow>
     bothCountsZero e now g w c"
  by (simp add: bothCountsZero_def CountDocuments_def)

lemma Prune_blocked:
  assumes "\<not> bothCountsZero e now g w c"
  shows "map_of (colls (snd (snd (Prune e now g w)))) c = map_of (colls w) c"
proof (cases "getExistingCollections e w (prefix g)")
  case (Inl err)
  then show ?thesis by (simp add: Prune_list_fails)
next
  case (Inr cs)
  show ?thesis
    using Prune_colls [OF Inr, of now]
      pruneWorkers_blocked [of e now g "\<lparr>pworld = w, catcher = [], collsDeleteChan = []\<rparr>" c
        "NumCPU e" "collsToCheckOf g now cs"] assms
    by simp
qed

lemma examined_in_store:
  assumes "c \<in> set (examined e now g w)"
  shows "c \<in> fst ` set (colls w)"
proof (cases "getExistingCollections e w (prefix g)")
  case (Inl err)
  with assms show ?thesis by (simp add: examined_def)
next
  case (Inr cs)
  with assms have "c \<in> set (collsToCheckOf g now cs)"
    using received_subset by (fastforce simp: examined_def)
  then have "c \<in> set cs" by (simp add: collsToCheckOf_def)
  with getExistingCollections_subset [OF Inr] show ?thesis by blast
qed

lemma Prune_drops_examined:
  assumes "c \<in> set (examined e now g w)" and "bothCountsZero e now g w c"
    and "dropErr e c = None" and "\<not> ctxDoneDrop e c"
  shows "c \<notin> fst ` set (colls (snd (snd (Prune e now g w))))"
proof (cases "getExistingCollections e w (prefix g)")
  case (Inl err)
  with assms(1) show ?thesis by (simp add: examined_def)
next
  case (Inr cs)
  from assms(1) Inr have
    "c \<in> set (received e g now (NumCPU e) (collsToCheckOf g now cs)
              \<lparr>pworld = w, catcher = [], collsDeleteChan = []\<rparr>)"
    by (simp add: examined_def)
  from pruneWorkers_drops_examined [OF this] assms(2,3,4) show ?thesis
    using Prune_colls [OF Inr, of now] by simp
qed

text \<open>A worker goes on to the next collection exactly when it has found both counts
  zero and, for a registered queue, its \<open>select\<close> has sent the id.\<close>

lemma pruneColl_continues_iff:
  "fst (pruneColl e g now c s) =
     (bothCountsZero e now g (pworld s) c
      \<and> \<not> (map_of (queues g) (idFromCollection g c) \<noteq> None \<and> ctxDoneDrop e c))"
  by (auto simp: pruneColl_def bothCountsZero_def CountDocuments_def Let_def
      split: option.splits)

text \<open>
  What holds of every pass. A collection that holds a pending or a recently completed
  document is still in the store after the pass, with the same documents, whatever the
  environment does. A candidate that a worker receives (\<open>examined\<close>) was in the store,
  and, with a live context and a store that carries out the drop, it is gone after the
  pass if and only if both counts came back zero.
\<close>

lemma Prune_keeps_collection_with_work:
  assumes "d \<in> set (documents w c)" and "pending d \<or> recentlyCompleted now (ttl g) d"
  shows "map_of (colls (snd (snd (Prune e now g w)))) c = map_of (colls w) c"
  using Prune_blocked [OF blocking_doc_not_zero [OF assms]] .

lemma Prune_examined_dropped_iff:
  assumes a: "c \<in> set (examined e now g w)" and "dropErr e c = None" and "\<not> ctxDoneDrop e c"
  shows "c \<in> fst ` set (colls w)
    \<and> (c \<notin> fst ` set (colls (snd (snd (Prune e now g w))))) = bothCountsZero e now g w c"
proof
  show inw: "c \<in> fst ` set (colls w)" using a by (rule examined_in_store)
  show "(c \<notin> fst ` set (colls (snd (snd (Prune e now g w))))) = bothCountsZero e now g w c"
  proof (cases "bothCountsZero e now g w c")
    case True
    with assms Prune_drops_examined [of c e now g w] show ?thesis by simp
  next
    case False
    from inw have "map_of (colls w) c \<noteq> None" by (simp add: map_of_eq_None_iff)
    with Prune_blocked [OF False] have "map_of (colls (snd (snd (Prune e now g w)))) c \<noteq> None"
      by simp
    then have "c \<in> fst ` set (colls (snd (snd (Prune e now g w))))"
      by (simp add: map_of_eq_None_iff)
    with False show ?thesis by simp
  qed
qed

text \<open>
  Claim C2. The claim is that the pass drops a candidate if and only if both of its
  counts are zero, and in particular that it drops a collection without documents. The
  half "never drops a collection with a pending or a recently completed document" holds
  (\<open>Prune_keeps_collection_with_work\<close>). The other half fails for a candidate that no
  worker receives: the loop of a worker leaves through \<open>return\<close> when a count is
  positive, so every candidate with work takes one worker out of the pool. Evaluated in
  the healthy environment (no call fails, the context is live), nothing registered, TTL
  3600, at time 10000:
  with two processors and the store listing \<open>svc.busy.jobs\<close> (one pending document),
  \<open>svc.done.jobs\<close> (one document completed at 9000) and \<open>svc.idle.jobs\<close> (no
  document), all three are candidates, the two workers return on the first two, and
  \<open>svc.idle.jobs\<close>, for which both counts are zero, is never counted and is still in
  the store after the pass. With one processor the same happens to \<open>svc.b.jobs\<close>
  behind \<open>svc.busy.jobs\<close>. The pass returns no error in either run.
\<close>

theorem Prune_leaves_idle_candidate_behind_busy_ones:
  "getExistingCollections env0 wBusyDoneIdle (prefix gIdle) =
       Inr [''svc.busy.jobs'', ''svc.done.jobs'', ''svc.idle.jobs'']
   \<and> collsToCheckOf gIdle 10000 [''svc.busy.jobs'', ''svc.done.jobs'', ''svc.idle.jobs''] =
       [''svc.busy.jobs'', ''svc.done.jobs'', ''svc.idle.jobs'']
   \<and> documents wBusyDoneIdle ''svc.idle.jobs'' = []
   \<and> bothCountsZero env0 10000 gIdle wBusyDoneIdle ''svc.idle.jobs''
   \<and> examined env0 10000 gIdle wBusyDoneIdle = [''svc.busy.jobs'', ''svc.done.jobs'']
   \<and> Prune env0 10000 gIdle wBusyDoneIdle = (None, gIdle, wBusyDoneIdle)
   \<and> getExistingCollections envHealthyOneCPU wBusyB (prefix gIdle) =
       Inr [''svc.busy.jobs'', ''svc.b.jobs'']
   \<and> collsToCheckOf gIdle 10000 [''svc.busy.jobs'', ''svc.b.jobs''] =
       [''svc.busy.jobs'', ''svc.b.jobs'']
   \<and> documents wBusyB ''svc.b.jobs'' = []
   \<and> bothCountsZero envHealthyOneCPU 10000 gIdle wBusyB ''svc.b.jobs''
   \<and> examined envHealthyOneCPU 10000 gIdle wBusyB = [''svc.busy.jobs'']
   \<and> Prune envHealthyOneCPU 10000 gIdle wBusyB = (None, gIdle, wBusyB)"
  by (simp add: bothCountsZero_def eval_defs input_defs)

subsection \<open>Prune: a worker that returns\<close>

text \<open>A failed count makes the worker return, and when the last worker returns the
  pass is over: nothing behind that candidate in the channel is received.\<close>

lemma worker_returns_on_failed_count:
  "countCompletedErr e c = Some err \<Longrightarrow>
     pruneColl e g now c s = (False, s\<lparr>catcher := catcher s @ [err]\<rparr>)"
  by (simp add: pruneColl_def CountDocuments_def)

lemma last_worker_return_ends_pass:
  assumes "fst (pruneColl e g now c s) = False"
  shows "received e g now (Suc 0) (c # cs) s = [c]
    \<and> pruneWorkers e g now (Suc 0) (c # cs) s = snd (pruneColl e g now c s)"
  using assms by (cases "pruneColl e g now c s") simp

text \<open>
  Claim C3. The claim is that a failing count on one candidate never keeps the other
  candidates from being checked, and dropped if idle. The loop of a worker leaves through
  \<open>return\<close> when a count fails (and when a count is positive), so each such candidate
  takes one worker out of the pool. Evaluated on the store with the collections
  \<open>svc.a.jobs\<close> and \<open>svc.b.jobs\<close>, both empty, nothing registered, where the count on
  \<open>svc.a.jobs\<close> fails:
  with one processor the only worker returns on \<open>svc.a.jobs\<close>; \<open>svc.b.jobs\<close> is
  never received and is still in the store after the pass, although it is idle. With two
  processors and the collection \<open>svc.busy.jobs\<close> (one pending document) listed between
  the two, the first worker returns on \<open>svc.a.jobs\<close>, the second on
  \<open>svc.busy.jobs\<close>, and \<open>svc.b.jobs\<close> is again never received. The error of the
  count is returned in both runs.
\<close>

theorem Prune_failed_count_starves_candidates:
  "collsToCheckOf gIdle 1000 [''svc.a.jobs'', ''svc.b.jobs''] = [''svc.a.jobs'', ''svc.b.jobs'']
   \<and> examined envOneCPU 1000 gIdle wTwo = [''svc.a.jobs'']
   \<and> bothCountsZero envOneCPU 1000 gIdle wTwo ''svc.b.jobs''
   \<and> Prune envOneCPU 1000 gIdle wTwo =
        (Some (Resolved [External ''count failed'']), gIdle, wTwo)
   \<and> examined envCountFails 1000 gIdle wBusyFirst = [''svc.a.jobs'', ''svc.busy.jobs'']
   \<and> bothCountsZero envCountFails 1000 gIdle wBusyFirst ''svc.b.jobs''
   \<and> Prune envCountFails 1000 gIdle wBusyFirst =
        (Some (Resolved [External ''count failed'']), gIdle, wBusyFirst)"
  by (simp add: bothCountsZero_def eval_defs input_defs)

subsection \<open>Prune: the second pass\<close>

text \<open>
  The second pass closes and deletes every registered id that is the id of no checked
  collection. An id touched within the TTL is such an id, whatever the store holds:
  the pre-filter keeps every collection of that id out of \<open>collsToCheck\<close>.
\<close>

lemma prefix_deleteIDs: "prefix (deleteIDs ids g) = prefix g"
  by (induction ids arbitrary: g) simp_all

lemma idFromCollection_prefix:
  "prefix g' = prefix g \<Longrightarrow> idFromCollection g' c = idFromCollection g c"
  by (simp add: idFromCollection_def)

lemma map_of_deleteIDs:
  "map_of (queues (deleteIDs ids g)) k = (if k \<in> set ids then None else map_of (queues g) k)"
  "map_of (ttlMap (deleteIDs ids g)) k = (if k \<in> set ids then None else map_of (ttlMap g) k)"
  by (induction ids arbitrary: g) (auto simp: delete_conv')

lemma pruneColl_chan:
  "set (collsDeleteChan (snd (pruneColl e g now c s)))
     \<subseteq> insert (idFromCollection g c) (set (collsDeleteChan s))"
  by (auto simp: pruneColl_def dropColl_def Let_def split: sum.splits option.splits)

lemma pruneWorkers_chan:
  "set (collsDeleteChan (pruneWorkers e g now n cs s))
     \<subseteq> set (collsDeleteChan s) \<union> idFromCollection g ` set cs"
proof (induction e g now n cs s rule: pruneWorkers.induct)
  case (3 e g now n c cs s)
  obtain b s' where p: "pruneColl e g now c s = (b, s')" by (cases "pruneColl e g now c s")
  have k: "set (collsDeleteChan s') \<subseteq> insert (idFromCollection g c) (set (collsDeleteChan s))"
    using pruneColl_chan [of e g now c s] p by simp
  show ?case
  proof (cases b)
    case True
    with 3(1) [of b s'] p k show ?thesis by auto
  next
    case False
    with 3(2) [of b s'] p k show ?thesis by auto
  qed
qed simp_all

lemma closeQueues_mono:
  "set (closed w) \<subseteq> set (closed (fst (closeQueues e g ctc qs (w, ch))))
   \<and> set ch \<subseteq> set (snd (closeQueues e g ctc qs (w, ch)))"
proof (induction qs arbitrary: w ch)
  case Nil
  then show ?case by simp
next
  case (Cons a qs)
  obtain qid q where a: "a = (qid, q)" by (cases a)
  show ?case
  proof (cases "qid \<in> set (map (idFromCollection g) ctc)")
    case True
    with Cons.IH [of w ch] show ?thesis by (simp add: a)
  next
    case False
    define w' where "w' = w\<lparr>closed := closed w @ [q]\<rparr>"
    define ch' where "ch' = (if ctxDoneClose e qid then ch else ch @ [qid])"
    have step: "closeQueues e g ctc (a # qs) (w, ch) = closeQueues e g ctc qs (w', ch')"
      using False by (simp add: a w'_def ch'_def)
    have "set (closed w) \<subseteq> set (closed w')" and "set ch \<subseteq> set ch'"
      by (auto simp: w'_def ch'_def)
    with Cons.IH [of w' ch'] show ?thesis unfolding step by blast
  qed
qed

lemma closeQueues_closes:
  assumes "(qid, q) \<in> set qs" and "qid \<notin> idFromCollection g ` set ctc"
  shows "q \<in> set (closed (fst (closeQueues e g ctc qs (w, ch))))
   \<and> (\<not> ctxDoneClose e qid \<longrightarrow> qid \<in> set (snd (closeQueues e g ctc qs (w, ch))))"
  using assms(1)
proof (induction qs arbitrary: w ch)
  case Nil
  then show ?case by simp
next
  case (Cons a qs)
  show ?case
  proof (cases "a = (qid, q)")
    case True
    define w' where "w' = w\<lparr>closed := closed w @ [q]\<rparr>"
    define ch' where "ch' = (if ctxDoneClose e qid then ch else ch @ [qid])"
    have step: "closeQueues e g ctc (a # qs) (w, ch) = closeQueues e g ctc qs (w', ch')"
      using assms(2) True by (simp add: w'_def ch'_def)
    have "q \<in> set (closed w')" by (simp add: w'_def)
    moreover have "\<not> ctxDoneClose e qid \<longrightarrow> qid \<in> set ch'" by (simp add: ch'_def)
    ultimately show ?thesis
      unfolding step using closeQueues_mono [of w' e g ctc qs ch'] by blast
  next
    case False
    with Cons.prems have m: "(qid, q) \<in> set qs" by simp
    obtain qid' q' where a: "a = (qid', q')" by (cases a)
    show ?thesis
    proof (cases "qid' \<in> set (map (idFromCollection g) ctc)")
      case True
      with Cons.IH [OF m, of w ch] show ?thesis by (simp add: a)
    next
      case nin: False
      have "closeQueues e g ctc (a # qs) (w, ch) =
          closeQueues e g ctc qs (w\<lparr>closed := closed w @ [q']\<rparr>,
            if ctxDoneClose e qid' then ch else ch @ [qid'])"
        using nin by (simp add: a)
      with Cons.IH [OF m] show ?thesis by simp
    qed
  qed
qed

lemma fresh_id_unchecked:
  assumes "map_of (ttlMap g) qid = Some t" and "now - t \<le> ttl g"
  shows "qid \<notin> idFromCollection g ` set (collsToCheckOf g now cs)"
  using assms by (auto simp: collsToCheckOf_def needsCheck_def)

lemma Prune_second_pass_evicts:
  assumes listing: "getExistingCollections e w (prefix g) = Inr cs"
    and reg: "map_of (queues g) qid = Some q"
    and unch: "qid \<notin> idFromCollection g ` set (collsToCheckOf g now cs)"
    and live: "\<not> ctxDoneClose e qid"
  shows "map_of (queues (fst (snd (Prune e now g w)))) qid = None
    \<and> map_of (ttlMap (fst (snd (Prune e now g w)))) qid = None
    \<and> q \<in> set (closed (snd (snd (Prune e now g w))))"
proof -
  define ctc where "ctc = collsToCheckOf g now cs"
  define s where "s = pruneWorkers e g now (NumCPU e) ctc
        \<lparr>pworld = w, catcher = [], collsDeleteChan = []\<rparr>"
  define g1 where "g1 = deleteIDs (collsDeleteChan s) g"
  obtain w2 ch where
    c: "closeQueues e g1 ctc (queues g1) (pworld s, []) = (w2, ch)"
    by (cases "closeQueues e g1 ctc (queues g1) (pworld s, [])")
  have res: "Prune e now g w = (Resolve (catcher s), deleteIDs ch g1, w2)"
    using listing c by (simp add: Prune_def Let_def s_def g1_def ctc_def)
  have "set (collsDeleteChan s) \<subseteq> idFromCollection g ` set ctc"
    using pruneWorkers_chan [of e g now "NumCPU e" ctc
        "\<lparr>pworld = w, catcher = [], collsDeleteChan = []\<rparr>"]
    by (simp add: s_def)
  with unch have "qid \<notin> set (collsDeleteChan s)" by (auto simp: ctc_def)
  with reg have "map_of (queues g1) qid = Some q" by (simp add: g1_def map_of_deleteIDs)
  then have mem: "(qid, q) \<in> set (queues g1)" by (rule map_of_SomeD)
  have "prefix g1 = prefix g" by (simp add: g1_def prefix_deleteIDs)
  then have "idFromCollection g1 = idFromCollection g"
    by (intro ext) (rule idFromCollection_prefix)
  with unch have "qid \<notin> idFromCollection g1 ` set ctc" by (simp add: ctc_def)
  from closeQueues_closes [OF mem this, of e "pworld s" "[]"] c live
  have "q \<in> set (closed w2)" and "qid \<in> set ch" by simp_all
  with res show ?thesis by (simp add: map_of_deleteIDs)
qed

lemma Prune_evicts_every_fresh_id:
  assumes "getExistingCollections e w (prefix g) = Inr cs"
    and "map_of (queues g) qid = Some q"
    and "map_of (ttlMap g) qid = Some t" and "now - t \<le> ttl g"
    and "\<not> ctxDoneClose e qid"
  shows "map_of (queues (fst (snd (Prune e now g w)))) qid = None
    \<and> map_of (ttlMap (fst (snd (Prune e now g w)))) qid = None
    \<and> q \<in> set (closed (snd (snd (Prune e now g w))))"
  using Prune_second_pass_evicts [OF assms(1,2) fresh_id_unchecked [OF assms(3,4)] assms(5)] .

text \<open>
  Claim C1. The claim is that a pass of \<open>Prune\<close> leaves alone an id that is
  registered, was touched less than the TTL ago, and whose collection exists under the
  prefix. Evaluated on the spec's scenario: id \<open>alpha\<close> is registered with handle 0 and
  last access 1000, the TTL is 3600, the store lists \<open>svc.alpha.jobs\<close>, and the pass
  runs at time 1000. The pre-filter skips the collection, so no collection is checked;
  the second pass then finds that \<open>alpha\<close> is the id of no checked collection, closes
  the runner of handle 0 and deletes \<open>alpha\<close> from both maps. The collection itself
  stays in the store. By \<open>Prune_evicts_every_fresh_id\<close> the same happens to every
  registered id touched within the TTL, in every pass that lists the collections and
  whose \<open>select\<close> sends the id.
\<close>

theorem Prune_evicts_recently_touched_queue:
  "map_of (queues gAlpha) ''alpha'' = Some 0
   \<and> map_of (ttlMap gAlpha) ''alpha'' = Some 1000
   \<and> \<not> needsCheck gAlpha 1000 (collectionFromID gAlpha ''alpha'')
   \<and> collectionFromID gAlpha ''alpha'' = ''svc.alpha.jobs''
   \<and> getExistingCollections env0 wAlpha (prefix gAlpha) = Inr [''svc.alpha.jobs'']
   \<and> examined env0 1000 gAlpha wAlpha = []
   \<and> Prune env0 1000 gAlpha wAlpha =
        (None, gAlpha\<lparr>queues := [], ttlMap := []\<rparr>, wAlpha\<lparr>closed := [0]\<rparr>)"
  by (simp add: eval_defs input_defs)

subsection \<open>The two maps have the same keys\<close>

lemma keys_delete: "fst ` set (AList.delete k al) = fst ` set al - {k}"
proof -
  have "set (map fst (AList.delete k al)) = set (map fst al) - {k}"
    by (simp only: delete_keys set_removeAll)
  then show ?thesis by simp
qed

lemma keys_update: "fst ` set (AList.update k v al) = insert k (fst ` set al)"
  by (simp add: dom_update)

lemma sameKeys_deleteIDs: "sameKeys g \<Longrightarrow> sameKeys (deleteIDs ids g)"
proof (induction ids arbitrary: g)
  case Nil
  then show ?case by simp
next
  case (Cons qid ids)
  from Cons.prems have "sameKeys (g\<lparr>queues := AList.delete qid (queues g),
                      ttlMap := AList.delete qid (ttlMap g)\<rparr>)"
    by (simp add: sameKeys_def keys_delete)
  from Cons.IH [OF this] show ?case by simp
qed

lemma sameKeys_Prune:
  assumes "sameKeys g"
  shows "sameKeys (fst (snd (Prune e now g w)))"
proof (cases "getExistingCollections e w (prefix g)")
  case (Inl err)
  with assms show ?thesis by (simp add: Prune_list_fails)
next
  case (Inr cs)
  define s where "s = pruneWorkers e g now (NumCPU e) (collsToCheckOf g now cs)
        \<lparr>pworld = w, catcher = [], collsDeleteChan = []\<rparr>"
  define g1 where "g1 = deleteIDs (collsDeleteChan s) g"
  obtain w2 ch where
    c: "closeQueues e g1 (collsToCheckOf g now cs) (queues g1) (pworld s, []) = (w2, ch)"
    by (cases "closeQueues e g1 (collsToCheckOf g now cs) (queues g1) (pworld s, [])")
  have "fst (snd (Prune e now g w)) = deleteIDs ch g1"
    using Inr c by (simp add: Prune_def Let_def s_def g1_def)
  moreover have "sameKeys g1" using assms by (simp add: g1_def sameKeys_deleteIDs)
  ultimately show ?thesis by (simp add: sameKeys_deleteIDs)
qed

lemma sameKeys_Get:
  assumes "sameKeys g"
  shows "sameKeys (fst (snd (Get e now qid g w)))"
proof (cases "map_of (queues g) qid")
  case None
  obtain r w' where p: "startProcessingRemoteQueue e (collectionFromID g qid) w = (r, w')"
    by (cases "startProcessingRemoteQueue e (collectionFromID g qid) w")
  show ?thesis
    using assms None p by (cases r) (simp_all add: Get_def sameKeys_def keys_update)
next
  case (Some q)
  then have "qid \<in> fst ` set (queues g)" by (meson domI domIff map_of_eq_None_iff)
  with assms Some show ?thesis
    by (auto simp: Get_def sameKeys_def keys_update)
qed

lemma sameKeys_Put: "sameKeys g \<Longrightarrow> sameKeys (snd (Put now qid q g))"
  by (auto simp: Put_def sameKeys_def keys_update split: option.splits)

lemma sameKeys_startAll:
  "sameKeys g \<Longrightarrow> sameKeys (fst (startAll e now cs (g, errs, w)))"
proof (induction cs arbitrary: g errs w)
  case Nil
  then show ?case by simp
next
  case (Cons coll rest)
  obtain r w' where p: "startProcessingRemoteQueue e coll w = (r, w')"
    by (cases "startProcessingRemoteQueue e coll w")
  show ?case
  proof (cases r)
    case (Inl err)
    with p Cons.IH [OF Cons.prems] show ?thesis by simp
  next
    case (Inr q)
    have "sameKeys (g\<lparr>queues := AList.update (idFromCollection g coll) q (queues g),
               ttlMap := AList.update (idFromCollection g coll) now (ttlMap g)\<rparr>)"
      using Cons.prems by (simp add: sameKeys_def keys_update)
    from Cons.IH [OF this] p Inr show ?thesis by simp
  qed
qed

lemma sameKeys_New:
  assumes "fst (NewMongoRemoteQueueGroup e now opts mdbopts w) = Inr g'"
  shows "sameKeys g'"
proof -
  define g where "g = \<lparr>mongooptions = mdbopts, prefix = Prefix opts,
                      pruneFrequency = PruneFrequency opts, queues = [],
                      ttl = TTL opts, ttlMap = []\<rparr>"
  define pr where "pr = (if PruneFrequency opts > 0 \<and> TTL opts > 0
                      then Prune e now g w else (None, g, w))"
  have g0: "sameKeys g" by (simp add: g_def sameKeys_def)
  have g1: "sameKeys (fst (snd pr))"
    using g0 sameKeys_Prune [of g e now w] by (simp add: pr_def)
  obtain r1 g1 w1 where pr3: "pr = (r1, g1, w1)" by (cases pr)
  with g1 have sg1: "sameKeys g1" by simp
  from assms pr3 have "\<exists>cs. g' = fst (startAll e now cs (g1, [], w1))"
    by (auto simp: NewMongoRemoteQueueGroup_def Let_def g_def [symmetric] pr_def [symmetric]
        split: option.splits if_splits sum.splits prod.splits)
      (metis fst_conv)
  with sameKeys_startAll [OF sg1] show ?thesis by auto
qed

lemma New_wAlpha:
  "NewMongoRemoteQueueGroup env0 5000 optsNoPrune mdb wAlpha =
     (Inr \<lparr>mongooptions = mdb, prefix = ''svc.'', pruneFrequency = 0,
           queues = [(''alpha'', 1)], ttl = 0, ttlMap = [(''alpha'', 5000)]\<rparr>,
      wAlpha\<lparr>constructed := 2, drivers := [(0, ''svc.alpha''), (1, ''svc.alpha'')],
             started := [0, 1]\<rparr>)"
  by (simp add: NewMongoRemoteQueueGroup_def eval_defs env0_def wAlpha_def optsNoPrune_def)
    (simp add: mdb_def)

text \<open>
  Claim C9. The registry and the last-access table have the same keys after every
  operation: \<open>Get\<close>, \<open>Put\<close> and \<open>Prune\<close> keep the property (they write and delete
  an id in both maps together), and a group that \<open>NewMongoRemoteQueueGroup\<close> returns
  has it.
\<close>

theorem registry_and_lastAccess_share_keys:
  "(sameKeys g \<longrightarrow>
      sameKeys (fst (snd (Get e now qid g w)))
      \<and> sameKeys (snd (Put now qid q g))
      \<and> sameKeys (fst (snd (Prune e now g w))))
   \<and> (fst (NewMongoRemoteQueueGroup e now opts mdbopts w) = Inr g' \<longrightarrow> sameKeys g')"
  using sameKeys_Get sameKeys_Put sameKeys_Prune sameKeys_New by blast

theorem registry_and_lastAccess_share_keys_witness:
  "sameKeys gAlpha
   \<and> sameKeys (fst (snd (Get env0 2000 ''beta'' gAlpha wAlpha)))
   \<and> sameKeys (snd (Put 2000 ''beta'' 7 gAlpha))
   \<and> sameKeys (fst (snd (Prune env0 5000 gAlpha wAlpha)))
   \<and> fst (NewMongoRemoteQueueGroup env0 5000 optsNoPrune mdb wAlpha) =
       Inr \<lparr>mongooptions = mdb, prefix = ''svc.'', pruneFrequency = 0,
            queues = [(''alpha'', 1)], ttl = 0, ttlMap = [(''alpha'', 5000)]\<rparr>
   \<and> sameKeys \<lparr>mongooptions = mdb, prefix = ''svc.'', pruneFrequency = 0,
            queues = [(''alpha'', 1)], ttl = 0, ttlMap = [(''alpha'', 5000)]\<rparr>"
proof -
  have a: "sameKeys gAlpha" by (simp add: sameKeys_def gAlpha_def)
  have b: "fst (NewMongoRemoteQueueGroup env0 5000 optsNoPrune mdb wAlpha) =
       Inr \<lparr>mongooptions = mdb, prefix = ''svc.'', pruneFrequency = 0,
            queues = [(''alpha'', 1)], ttl = 0, ttlMap = [(''alpha'', 5000)]\<rparr>"
    by (simp add: New_wAlpha)
  from registry_and_lastAccess_share_keys [of gAlpha env0 2000 "''beta''" wAlpha 7]
    registry_and_lastAccess_share_keys
    [of gAlpha env0 5000 "''beta''" wAlpha 7 optsNoPrune mdb
      "\<lparr>mongooptions = mdb, prefix = ''svc.'', pruneFrequency = 0,
            queues = [(''alpha'', 1)], ttl = 0, ttlMap = [(''alpha'', 5000)]\<rparr>"]
    a b
  show ?thesis by simp
qed

subsection \<open>Construction\<close>

text \<open>
  Claim C7. When the database name or the URI is empty, construction returns an error
  and no group: the error of \<open>validate\<close> if the options are invalid too, otherwise
  "no database name specified" or "no mongodb uri specified". The world is returned as
  it was: the store has not been asked anything, no queue has been constructed and the
  pruning goroutine has not been launched.
\<close>

theorem NewMongoRemoteQueueGroup_rejects_empty_config:
  assumes "DB mdbopts = [] \<or> URI mdbopts = []"
  shows "NewMongoRemoteQueueGroup e now opts mdbopts w =
     (Inl (case validate e opts of
             Some err \<Rightarrow> Wrap err ''invalid remote queue options''
           | None \<Rightarrow>
               if DB mdbopts = [] then New ''no database name specified''
               else New ''no mongodb uri specified''),
      w)"
  using assms by (auto simp: NewMongoRemoteQueueGroup_def split: option.splits)

theorem NewMongoRemoteQueueGroup_rejects_empty_config_witness:
  "DB (mdb\<lparr>DB := []\<rparr>) = []
   \<and> NewMongoRemoteQueueGroup env0 5000 optsNoPrune (mdb\<lparr>DB := []\<rparr>) wAlpha =
       (Inl (New ''no database name specified''), wAlpha)
   \<and> URI (mdb\<lparr>URI := []\<rparr>) = []
   \<and> NewMongoRemoteQueueGroup env0 5000 optsNoPrune (mdb\<lparr>URI := []\<rparr>) wAlpha =
       (Inl (New ''no mongodb uri specified''), wAlpha)"
proof -
  have a: "DB (mdb\<lparr>DB := []\<rparr>) = [] \<or> URI (mdb\<lparr>DB := []\<rparr>) = []" by simp
  have b: "DB (mdb\<lparr>URI := []\<rparr>) = [] \<or> URI (mdb\<lparr>URI := []\<rparr>) = []" by simp
  from NewMongoRemoteQueueGroup_rejects_empty_config [OF a, of env0 5000 optsNoPrune wAlpha]
    NewMongoRemoteQueueGroup_rejects_empty_config [OF b, of env0 5000 optsNoPrune wAlpha]
  show ?thesis by (simp add: env0_def mdb_def)
qed

lemma startProcessingRemoteQueue_effect:
  assumes "startProcessingRemoteQueue e coll w = (r, w')"
  shows "constructed w' = Suc (constructed w) \<and> pruneLoop w' = pruneLoop w
    \<and> colls w' = colls w
    \<and> (case r of Inl err \<Rightarrow> started w' = started w
               | Inr q \<Rightarrow> started w' = started w @ [q])"
  using assms
  by (auto simp: startProcessingRemoteQueue_def Let_def split: option.splits)

lemma startAll_effect:
  assumes "startAll e now cs (g, errs, w) = (g', errs', w')"
  shows "constructed w' = constructed w + length cs
    \<and> length errs' + length (started w') = length errs + length (started w) + length cs
    \<and> pruneLoop w' = pruneLoop w \<and> colls w' = colls w"
  using assms
proof (induction cs arbitrary: g errs w)
  case Nil
  then show ?case by simp
next
  case (Cons coll rest)
  obtain r w1 where p: "startProcessingRemoteQueue e coll w = (r, w1)"
    by (cases "startProcessingRemoteQueue e coll w")
  note eff = startProcessingRemoteQueue_effect [OF p]
  show ?case
  proof (cases r)
    case (Inl err)
    with Cons.prems p have
      "startAll e now rest (g, errs @ [Wrap err ''problem starting queue''], w1) = (g', errs', w')"
      by simp
    from Cons.IH [OF this] eff Inl show ?thesis by simp
  next
    case (Inr q)
    with Cons.prems p have
      "startAll e now rest
            (g\<lparr>queues := AList.update (idFromCollection g coll) q (queues g),
               ttlMap := AList.update (idFromCollection g coll) now (ttlMap g)\<rparr>,
             errs, w1) = (g', errs', w')"
      by simp
    from Cons.IH [OF this] eff Inr show ?thesis by simp
  qed
qed

lemma startProcessingRemoteQueue_result:
  "fst (startProcessingRemoteQueue e coll w) =
     (case startFailure e coll (constructed w) of
        Some err \<Rightarrow> Inl err
      | None \<Rightarrow> Inr (constructed w))"
  by (simp add: startProcessingRemoteQueue_def startFailure_def Let_def split: option.splits)

lemma startAll_errors:
  assumes "startAll e now cs (g, errs, w) = (g', errs', w')"
  shows "errs' = errs @ startErrors e (constructed w) cs"
  using assms
proof (induction cs arbitrary: g errs w)
  case Nil
  then show ?case by simp
next
  case (Cons coll rest)
  obtain r w1 where p: "startProcessingRemoteQueue e coll w = (r, w1)"
    by (cases "startProcessingRemoteQueue e coll w")
  have c1: "constructed w1 = Suc (constructed w)"
    using startProcessingRemoteQueue_effect [OF p] by simp
  have r: "r = (case startFailure e coll (constructed w) of
        Some err \<Rightarrow> Inl err | None \<Rightarrow> Inr (constructed w))"
    using startProcessingRemoteQueue_result [of e coll w] p by simp
  show ?case
  proof (cases "startFailure e coll (constructed w)")
    case None
    with r have "r = Inr (constructed w)" by simp
    with Cons.prems p have
      "startAll e now rest
            (g\<lparr>queues := AList.update (idFromCollection g coll) (constructed w) (queues g),
               ttlMap := AList.update (idFromCollection g coll) now (ttlMap g)\<rparr>,
             errs, w1) = (g', errs', w')"
      by simp
    from Cons.IH [OF this] None c1 show ?thesis by simp
  next
    case (Some err)
    with r have "r = Inl err" by simp
    with Cons.prems p have
      "startAll e now rest (g, errs @ [Wrap err ''problem starting queue''], w1) = (g', errs', w')"
      by simp
    from Cons.IH [OF this] Some c1 show ?thesis by simp
  qed
qed

lemma startAll_twoFail:
  "startAll envTwoFail 5000 [''svc.idle.jobs'', ''svc.busy.jobs'', ''svc.done.jobs'']
       (\<lparr>mongooptions = mdb, prefix = ''svc.'', pruneFrequency = 0, queues = [],
          ttl = 0, ttlMap = []\<rparr>, [], wThree) =
     (\<lparr>mongooptions = mdb, prefix = ''svc.'', pruneFrequency = 0, queues = [(''busy'', 1)],
          ttl = 0, ttlMap = [(''busy'', 5000)]\<rparr>,
      [Wrap (Wrap (External ''cannot start'') ''problem starting queue'') ''problem starting queue'',
       Wrap (Wrap (External ''cannot start'') ''problem starting queue'') ''problem starting queue''],
      wThree\<lparr>constructed := 3,
             drivers := [(0, ''svc.idle''), (1, ''svc.busy''), (2, ''svc.done'')],
             started := [1]\<rparr>)"
  by (simp add: eval_defs envTwoFail_def env0_def wThree_def)

lemma listing_twoFail:
  "getExistingCollections envTwoFail wThree ''svc.'' =
      Inr [''svc.idle.jobs'', ''svc.busy.jobs'', ''svc.done.jobs'']"
  by (simp add: eval_defs envTwoFail_def env0_def wThree_def)

text \<open>
  Claim C6. Let construction get as far as the loop over the discovered collections
  \<open>cs\<close> (the options are valid, the first pruning, if any, and the listing succeed).
  Then the loop attempts every collection, whatever happened to the earlier ones: the
  constructor is called once per collection, every collection ends as a started queue or
  as one error in the catcher, and the catcher holds exactly the errors of the queues
  that failed to start, each wrapped as "problem starting queue", in the order of the
  collections (\<open>startErrors\<close>). If it holds any, construction returns them all,
  resolved into one error, and no group; the pruning goroutine is not launched. A group
  is returned only when the catcher is empty.
\<close>

theorem NewMongoRemoteQueueGroup_collects_start_failures:
  assumes "validate e opts = None" and "DB mdbopts \<noteq> []" and "URI mdbopts \<noteq> []"
    and "g0 = \<lparr>mongooptions = mdbopts, prefix = Prefix opts,
               pruneFrequency = PruneFrequency opts, queues = [],
               ttl = TTL opts, ttlMap = []\<rparr>"
    and "(if PruneFrequency opts > 0 \<and> TTL opts > 0
          then Prune e now g0 w else (None, g0, w)) = (None, g1, w1)"
    and "getExistingCollections e w1 (prefix g1) = Inr cs"
    and "startAll e now cs (g1, [], w1) = (g2, errs, w2)"
  shows "constructed w2 = constructed w1 + length cs
    \<and> length errs + length (started w2) = length (started w1) + length cs
    \<and> errs = startErrors e (constructed w1) cs
    \<and> (errs \<noteq> [] \<longrightarrow>
         NewMongoRemoteQueueGroup e now opts mdbopts w = (Inl (Resolved errs), w2)
         \<and> pruneLoop w2 = pruneLoop w1)
    \<and> (errs = [] \<longrightarrow> fst (NewMongoRemoteQueueGroup e now opts mdbopts w) = Inr g2)"
proof -
  note eff = startAll_effect [OF assms(7)]
  note errors = startAll_errors [OF assms(7)]
  have "NewMongoRemoteQueueGroup e now opts mdbopts w =
      (if errs \<noteq> [] then (Inl (Resolved errs), w2)
       else (Inr g2, if PruneFrequency opts > 0 \<and> TTL opts > 0
                     then w2\<lparr>pruneLoop := True\<rparr> else w2))"
    using assms(1,2,3,5,6,7)
    by (simp add: NewMongoRemoteQueueGroup_def Let_def assms(4) [symmetric])
  with eff errors show ?thesis by simp
qed

theorem NewMongoRemoteQueueGroup_collects_start_failures_witness:
  "validate envTwoFail optsNoPrune = None \<and> DB mdb \<noteq> [] \<and> URI mdb \<noteq> []
   \<and> getExistingCollections envTwoFail wThree ''svc.'' =
       Inr [''svc.idle.jobs'', ''svc.busy.jobs'', ''svc.done.jobs'']
   \<and> constructed (wThree\<lparr>constructed := 3,
             drivers := [(0, ''svc.idle''), (1, ''svc.busy''), (2, ''svc.done'')],
             started := [1]\<rparr>) = constructed wThree + 3
   \<and> startErrors envTwoFail (constructed wThree)
         [''svc.idle.jobs'', ''svc.busy.jobs'', ''svc.done.jobs''] =
       [Wrap (Wrap (External ''cannot start'') ''problem starting queue'')
          ''problem starting queue'',
        Wrap (Wrap (External ''cannot start'') ''problem starting queue'')
          ''problem starting queue'']
   \<and> NewMongoRemoteQueueGroup envTwoFail 5000 optsNoPrune mdb wThree =
       (Inl (Resolved
          [Wrap (Wrap (External ''cannot start'') ''problem starting queue'')
             ''problem starting queue'',
           Wrap (Wrap (External ''cannot start'') ''problem starting queue'')
             ''problem starting queue'']),
        wThree\<lparr>constructed := 3,
             drivers := [(0, ''svc.idle''), (1, ''svc.busy''), (2, ''svc.done'')],
             started := [1]\<rparr>)
   \<and> pruneLoop (wThree\<lparr>constructed := 3,
             drivers := [(0, ''svc.idle''), (1, ''svc.busy''), (2, ''svc.done'')],
             started := [1]\<rparr>) = pruneLoop wThree"
proof -
  have v: "validate envTwoFail optsNoPrune = None" "DB mdb \<noteq> []" "URI mdb \<noteq> []"
    by (simp_all add: envTwoFail_def env0_def mdb_def)
  have g: "\<lparr>mongooptions = mdb, prefix = ''svc.'', pruneFrequency = 0, queues = [],
          ttl = 0, ttlMap = []\<rparr> =
      \<lparr>mongooptions = mdb, prefix = Prefix optsNoPrune,
               pruneFrequency = PruneFrequency optsNoPrune, queues = [],
               ttl = TTL optsNoPrune, ttlMap = []\<rparr>"
    by (simp add: optsNoPrune_def)
  have p: "(if PruneFrequency optsNoPrune > 0 \<and> TTL optsNoPrune > 0
          then Prune envTwoFail 5000 \<lparr>mongooptions = mdb, prefix = ''svc.'', pruneFrequency = 0,
            queues = [], ttl = 0, ttlMap = []\<rparr> wThree
          else (None, \<lparr>mongooptions = mdb, prefix = ''svc.'', pruneFrequency = 0, queues = [],
            ttl = 0, ttlMap = []\<rparr>, wThree)) =
       (None, \<lparr>mongooptions = mdb, prefix = ''svc.'', pruneFrequency = 0, queues = [],
            ttl = 0, ttlMap = []\<rparr>, wThree)"
    by (simp add: optsNoPrune_def)
  have l: "getExistingCollections envTwoFail wThree
      (prefix \<lparr>mongooptions = mdb, prefix = ''svc.'', pruneFrequency = 0, queues = [],
            ttl = 0, ttlMap = []\<rparr>) =
       Inr [''svc.idle.jobs'', ''svc.busy.jobs'', ''svc.done.jobs'']"
    by (simp add: listing_twoFail)
  from NewMongoRemoteQueueGroup_collects_start_failures
    [OF v g p l startAll_twoFail] v listing_twoFail
  show ?thesis by simp
qed

end
